theory Spec2Isabelle
  imports Complex_Main "HOL-Library.Multiset"
begin

section \<open>The team2 poker player: data model\<close>

text \<open>
  The development embeds \<^verbatim>\<open>services/players/team2/index.ts\<close> (class \<^verbatim>\<open>JsPlayer\<close>).

  JavaScript has a single numeric type. Card numbers, points, the pot and the two counters
  are integers in every snapshot the engine builds, and they are modelled as \<open>int\<close>. A hand
  strength is an integer category plus a decimal fraction and is modelled as an exact
  rational. For a hand of five cards with numbers 1..13 the fraction has ten decimal digits
  and the category is at most 900, so the strength has at most thirteen significant decimal
  digits: the double the program computes orders and compares (with the thresholds 100, 200,
  300, 400) exactly as the rational does. The products \<^verbatim>\<open>pot * 0.5\<close> and
  \<^verbatim>\<open>pot * 0.1\<close> are compared with integers only, and are modelled as the exact half
  and tenth of the pot.

  The optional logger is written to and never read; it is left out of the state.
\<close>

record card =
  suit :: string
  number :: int

record roundInfo =
  betPoint :: "int option"
  cards :: "card list option"

record playerInfo =
  p_name :: string
  status :: string
  point :: int
  p_round :: roundInfo

record gameInfo =
  currentRound :: int
  phase :: string
  pot :: int
  minBetPoint :: int
  players :: "string \<rightharpoonup> playerInfo"
  winner :: "string option"

record jsPlayer =
  this_id :: string
  this_name :: string
  this_round :: int
  this_win :: int

section \<open>JavaScript helpers used by the strategy\<close>

text \<open>\<^verbatim>\<open>xs[i]\<close>: \<open>None\<close> stands for \<^verbatim>\<open>undefined\<close> (index out of range).\<close>

definition elemAt :: "'a list \<Rightarrow> nat \<Rightarrow> 'a option" where
  "elemAt xs i = (if i < length xs then Some (xs ! i) else None)"

text \<open>
  The object \<^verbatim>\<open>counts\<close>: its properties in creation order.
  \<^verbatim>\<open>acc[rank] = (acc[rank] || 0) + 1\<close> updates a property in place or creates it last.
\<close>

type_synonym counts = "(int \<times> nat) list"

fun incr :: "int \<Rightarrow> counts \<Rightarrow> counts" where
  "incr r [] = [(r, 1)]"
| "incr r ((k, n) # kvs) = (if k = r then (k, n + 1) # kvs else (k, n) # incr r kvs)"

text \<open>
  Property enumeration order of an ordinary object: array-index keys (0 .. 2^32 - 2) in
  ascending numeric order, then every other key in creation order.
\<close>

definition isArrayIndex :: "int \<Rightarrow> bool" where
  "isArrayIndex k = (0 \<le> k \<and> k < 4294967295)"

definition ownEntries :: "counts \<Rightarrow> (int \<times> nat) list" where
  "ownEntries kvs =
     sort_key fst (filter (\<lambda>kv. isArrayIndex (fst kv)) kvs)
       @ filter (\<lambda>kv. \<not> isArrayIndex (fst kv)) kvs"

definition objectKeys :: "counts \<Rightarrow> int list" where
  "objectKeys kvs = map fst (ownEntries kvs)"

definition objectValues :: "counts \<Rightarrow> nat list" where
  "objectValues kvs = map snd (ownEntries kvs)"

text \<open>\<^verbatim>\<open>String(r)\<close> for an integer, and \<^verbatim>\<open>padStart(2, '0')\<close>.\<close>

definition digitChar :: "nat \<Rightarrow> char" where
  "digitChar d = char_of (48 + d)"

fun digitsOf :: "nat \<Rightarrow> string" where
  "digitsOf n = (if n < 10 then [digitChar n] else digitsOf (n div 10) @ [digitChar (n mod 10)])"

definition toString :: "int \<Rightarrow> string" where
  "toString i = (if i < 0 then CHR ''-'' # digitsOf (nat (- i)) else digitsOf (nat i))"

definition padStart2 :: "string \<Rightarrow> string" where
  "padStart2 s = replicate (2 - length s) CHR ''0'' @ s"

text \<open>
  \<^verbatim>\<open>parseFloat(`0.${t}`)\<close>: the value of the longest prefix that is a decimal literal,
  which is \<^verbatim>\<open>0.\<close> followed by the leading decimal digits of \<open>t\<close> (no exponent can occur:
  \<open>t\<close> holds digits and minus signs only).
\<close>

definition isDigit :: "char \<Rightarrow> bool" where
  "isDigit c = (48 \<le> (of_char c :: nat) \<and> (of_char c :: nat) \<le> 57)"

definition digitVal :: "char \<Rightarrow> nat" where
  "digitVal c = of_char c - 48"

fun parseFraction :: "string \<Rightarrow> rat" where
  "parseFraction [] = 0"
| "parseFraction (c # cs) =
     (if isDigit c then (of_nat (digitVal c) + parseFraction cs) / 10 else 0)"

text \<open>\<^verbatim>\<open>Math.max(...xs)\<close>: \<open>None\<close> stands for \<^verbatim>\<open>-Infinity\<close>, the result for no arguments.\<close>

fun mathMax :: "int list \<Rightarrow> int option" where
  "mathMax [] = None"
| "mathMax (x # xs) = (case mathMax xs of None \<Rightarrow> Some x | Some m \<Rightarrow> Some (max x m))"

section \<open>Hand evaluation\<close>

definition toRank :: "card \<Rightarrow> int" where
  "toRank c = (if number c = 1 then 14 else number c)"

definition countRanks :: "int list \<Rightarrow> counts" where
  "countRanks ranks = fold (\<lambda>rank acc. incr rank acc) ranks []"

text \<open>
  The local constants of \<^verbatim>\<open>evaluateHand\<close>, as functions of the sorted ranks and of the
  suits. Both lists have length 5 where they are used, so \<^verbatim>\<open>suits[0]\<close> and
  \<^verbatim>\<open>ranks[i - 1]\<close> for \<open>i > 0\<close> are in range.
\<close>

definition isFlush :: "string list \<Rightarrow> bool" where
  "isFlush suits = list_all (\<lambda>s. s = suits ! 0) suits"

definition isA5Straight :: "int list \<Rightarrow> bool" where
  "isA5Straight ranks = (ranks = [2, 3, 4, 5, 14])"

definition isNormalStraight :: "int list \<Rightarrow> bool" where
  "isNormalStraight ranks =
     list_all (\<lambda>i. i = 0 \<or> ranks ! i = ranks ! (i - 1) + 1) [0..<length ranks]"

definition isStraight :: "int list \<Rightarrow> bool" where
  "isStraight ranks = (isNormalStraight ranks \<or> isA5Straight ranks)"

definition countsValues :: "int list \<Rightarrow> nat list" where
  "countsValues ranks = rev (sort (objectValues (countRanks ranks)))"

text \<open>The category score of a list of five cards (the if-chain of \<^verbatim>\<open>evaluateHand\<close>).\<close>

definition handScore :: "card list \<Rightarrow> int" where
  "handScore cs =
     (let ranks = sort (map toRank cs);
          suits = map suit cs
      in if isStraight ranks \<and> isFlush suits \<and> 14 \<in> set ranks \<and> 13 \<in> set ranks then 900
         else if isStraight ranks \<and> isFlush suits then 800
         else if elemAt (countsValues ranks) 0 = Some 4 then 700
         else if elemAt (countsValues ranks) 0 = Some 3 \<and> elemAt (countsValues ranks) 1 = Some 2
           then 600
         else if isFlush suits then 500
         else if isStraight ranks then 400
         else if elemAt (countsValues ranks) 0 = Some 3 then 300
         else if elemAt (countsValues ranks) 0 = Some 2 \<and> elemAt (countsValues ranks) 1 = Some 2
           then 200
         else if elemAt (countsValues ranks) 0 = Some 2 then 100
         else 0)"

definition tieBreaker :: "card list \<Rightarrow> string" where
  "tieBreaker cs =
     concat (rev (map (\<lambda>r. padStart2 (toString r)) (sort (map toRank cs))))"

text \<open>\<open>None\<close> is an absent hand (\<^verbatim>\<open>null\<close> or \<^verbatim>\<open>undefined\<close>).\<close>

definition evaluateHand :: "card list option \<Rightarrow> rat" where
  "evaluateHand h =
     (case h of
        None \<Rightarrow> 0
      | Some cs \<Rightarrow>
          if length cs \<noteq> 5 then 0
          else of_int (handScore cs) + parseFraction (tieBreaker cs))"

section \<open>Draw selection\<close>

definition countCards :: "card list \<Rightarrow> counts" where
  "countCards cs = fold (\<lambda>c acc. incr (toRank c) acc) cs []"

text \<open>
  \<^verbatim>\<open>Object.keys(counts).find((rank) => counts[rank] === n)\<close>; \<open>None\<close> is
  \<^verbatim>\<open>undefined\<close>, which \<^verbatim>\<open>parseInt\<close> turns into \<^verbatim>\<open>NaN\<close>, equal to no rank.
\<close>

definition findRank :: "counts \<Rightarrow> nat \<Rightarrow> int option" where
  "findRank cnt n = find (\<lambda>rank. map_of cnt rank = Some n) (objectKeys cnt)"

text \<open>The last \<^verbatim>\<open>cards.map\<close> of \<^verbatim>\<open>decideDraw\<close>, with its captured flag \<^verbatim>\<open>kept\<close>.\<close>

fun keepFirst :: "int option \<Rightarrow> bool \<Rightarrow> card list \<Rightarrow> bool list" where
  "keepFirst maxRank kept [] = []"
| "keepFirst maxRank kept (c # cs) =
     (if Some (toRank c) = maxRank \<and> \<not> kept then False # keepFirst maxRank True cs
      else True # keepFirst maxRank kept cs)"

definition decideDraw :: "card list \<Rightarrow> rat \<Rightarrow> bool list" where
  "decideDraw cs handStrength =
     (if handStrength \<ge> 400 then [False, False, False, False, False]
      else if handStrength \<ge> 300 then
        (let threeRank = findRank (countCards cs) 3
         in map (\<lambda>c. Some (toRank c) \<noteq> threeRank) cs)
      else if handStrength \<ge> 200 then
        (let singleRank = findRank (countCards cs) 1
         in map (\<lambda>c. Some (toRank c) = singleRank) cs)
      else if handStrength \<ge> 100 then
        (let pairRank = findRank (countCards cs) 2
         in map (\<lambda>c. Some (toRank c) \<noteq> pairRank) cs)
      else keepFirst (mathMax (map toRank cs)) False cs)"

section \<open>Lifecycle hooks\<close>

text \<open>
  Every hook returns its result together with the state of the player afterwards. A hook
  that throws returns the exception as its result (\<open>Inl\<close>).
\<close>

datatype error = TypeError

text \<open>
  \<^verbatim>\<open>data.players[this.name]\<close>. The field \<open>players\<close> holds the own properties of the
  player map, a plain object (an object literal in the test file), so a name that is not
  an own property is looked up in \<^verbatim>\<open>Object.prototype\<close>. Every member found there (a
  function, or the prototype object itself for \<^verbatim>\<open>__proto__\<close>) is truthy and has no
  property \<^verbatim>\<open>round\<close>.
\<close>

definition objectPrototypeKeys :: "string list" where
  "objectPrototypeKeys =
     [''constructor'', ''__defineGetter__'', ''__defineSetter__'', ''hasOwnProperty'',
      ''__lookupGetter__'', ''__lookupSetter__'', ''isPrototypeOf'', ''propertyIsEnumerable'',
      ''toString'', ''valueOf'', ''__proto__'', ''toLocaleString'']"

datatype lookup = Undefined | Inherited | Own playerInfo

definition lookupPlayer :: "(string \<rightharpoonup> playerInfo) \<Rightarrow> string \<Rightarrow> lookup" where
  "lookupPlayer obj key =
     (case obj key of
        Some p \<Rightarrow> Own p
      | None \<Rightarrow> if key \<in> set objectPrototypeKeys then Inherited else Undefined)"

definition startRound :: "jsPlayer \<Rightarrow> gameInfo \<Rightarrow> unit \<times> jsPlayer" where
  "startRound this data = ((), this\<lparr>this_round := currentRound data\<rparr>)"

text \<open>
  In \<^verbatim>\<open>decideBetPoint\<close> an inherited member passes the test \<^verbatim>\<open>!self\<close>, and
  \<^verbatim>\<open>self.round.cards\<close> then reads \<^verbatim>\<open>cards\<close> of \<^verbatim>\<open>undefined\<close>: a TypeError.
\<close>

definition decideBetPoint :: "jsPlayer \<Rightarrow> gameInfo \<Rightarrow> (error + int) \<times> jsPlayer" where
  "decideBetPoint this data =
     (case lookupPlayer (players data) (this_name this) of
        Undefined \<Rightarrow> (Inr (- 1), this)
      | Inherited \<Rightarrow> (Inl TypeError, this)
      | Own self \<Rightarrow>
          (let myHandStrength = evaluateHand (cards (p_round self));
               diff = minBetPoint data - (case betPoint (p_round self) of None \<Rightarrow> 0 | Some b \<Rightarrow> b);
               stack = point self - diff
           in if myHandStrength \<ge> 200 then
                (if minBetPoint data = 0 then (Inr \<lfloor>of_int (pot data) * (1 / 2 :: rat)\<rfloor>, this)
                 else (Inr (min stack (minBetPoint data * 2)), this))
              else if myHandStrength \<ge> 100 then
                (if of_int (minBetPoint data) > of_int (pot data) * (1 / 2 :: rat)
                 then (Inr (- 1), this)
                 else (Inr 0, this))
              else if minBetPoint data = 0 then (Inr 0, this)
              else if of_int diff < of_int (pot data) * (1 / 10 :: rat) then (Inr 0, this)
              else (Inr (- 1), this)))"

text \<open>
  In \<^verbatim>\<open>drawCard\<close>, \<^verbatim>\<open>self?.round.cards ?? []\<close> is \<^verbatim>\<open>[]\<close> for an undefined
  \<^verbatim>\<open>self\<close> and for absent cards; the optional chain guards \<^verbatim>\<open>self\<close> only, so an
  inherited member again gives a TypeError.
\<close>

definition drawCard :: "jsPlayer \<Rightarrow> gameInfo \<Rightarrow> (error + bool list) \<times> jsPlayer" where
  "drawCard this data =
     (case lookupPlayer (players data) (this_name this) of
        Inherited \<Rightarrow> (Inl TypeError, this)
      | self \<Rightarrow>
          (let cs = (case self of
                       Own p \<Rightarrow> (case cards (p_round p) of None \<Rightarrow> [] | Some cs \<Rightarrow> cs)
                     | _ \<Rightarrow> []);
               myHandStrength = evaluateHand (Some cs)
           in (Inr (decideDraw cs myHandStrength), this)))"

definition endRound :: "jsPlayer \<Rightarrow> gameInfo \<Rightarrow> unit \<times> jsPlayer" where
  "endRound this data =
     (if winner data = Some (this_name this) then ((), this\<lparr>this_win := this_win this + 1\<rparr>)
      else ((), this))"

definition start :: "jsPlayer \<Rightarrow> gameInfo \<Rightarrow> unit \<times> jsPlayer" where
  "start this data = startRound this data"

definition bet :: "jsPlayer \<Rightarrow> gameInfo \<Rightarrow> (error + int) \<times> jsPlayer" where
  "bet this data = decideBetPoint this data"

definition draw :: "jsPlayer \<Rightarrow> gameInfo \<Rightarrow> (error + bool list) \<times> jsPlayer" where
  "draw this data = drawCard this data"

definition end_hook :: "jsPlayer \<Rightarrow> gameInfo \<Rightarrow> unit \<times> jsPlayer" where
  "end_hook this data = endRound this data"

section \<open>The betting policy as the specification words it\<close>

text \<open>
  The reference policy of the betting component, written from the specification's
  description: fold when the acting player is not in the player map; otherwise compute the
  call gap and the available stack and choose by strength band.
\<close>

definition referencePolicy :: "gameInfo \<Rightarrow> playerInfo option \<Rightarrow> rat \<Rightarrow> int" where
  "referencePolicy snapshot selfState strength =
     (case selfState of
        None \<Rightarrow> - 1
      | Some st \<Rightarrow>
          (let callGap = minBetPoint snapshot - (case betPoint (p_round st) of None \<Rightarrow> 0 | Some b \<Rightarrow> b);
               availableStack = point st - callGap
           in if 200 \<le> strength then
                (if minBetPoint snapshot = 0 then \<lfloor>of_int (pot snapshot) * (1 / 2 :: rat)\<rfloor>
                 else min availableStack (minBetPoint snapshot * 2))
              else if 100 \<le> strength \<and> strength < 200 then
                (if of_int (pot snapshot) * (1 / 2 :: rat) < of_int (minBetPoint snapshot) then - 1 else 0)
              else
                (if minBetPoint snapshot = 0 then 0
                 else if of_int callGap < of_int (pot snapshot) * (1 / 10 :: rat) then 0
                 else - 1)))"

section \<open>The hand category as the specification words it\<close>

text \<open>
  The category of a hand written from the specification's description of the evaluator:
  a flush has all suits identical; a straight has five consecutive ranks with no gaps or is
  the rank set 2, 3, 4, 5, 14; the counts are the sizes of the groups of equal ranks in
  descending order; the categories are tried in priority order and the first match wins.
\<close>

definition specFlush :: "card list \<Rightarrow> bool" where
  "specFlush cs = (\<forall>c\<in>set cs. \<forall>d\<in>set cs. suit c = suit d)"

definition specStraight :: "int list \<Rightarrow> bool" where
  "specStraight ranks =
     ((\<exists>lo\<in>set ranks. set ranks = {lo..lo + 4}) \<or> set ranks = {2, 3, 4, 5, 14})"

definition specCounts :: "int list \<Rightarrow> nat list" where
  "specCounts ranks = rev (sort (map (count_list ranks) (remdups ranks)))"

definition specCategory :: "card list \<Rightarrow> int" where
  "specCategory cs =
     (let ranks = map toRank cs;
          straight = specStraight ranks;
          flush = specFlush cs;
          counts = specCounts ranks
      in if straight \<and> flush \<and> 14 \<in> set ranks \<and> 13 \<in> set ranks then 900
         else if straight \<and> flush then 800
         else if take 1 counts = [4] then 700
         else if take 2 counts = [3, 2] then 600
         else if flush then 500
         else if straight then 400
         else if take 1 counts = [3] then 300
         else if take 2 counts = [2, 2] then 200
         else if take 1 counts = [2] then 100
         else 0)"

section \<open>Hands of the data model\<close>

text \<open>
  A card of the data model has a number from 1 to 13 (1 is the Ace); a hand is five such
  cards. Suits are not restricted.
\<close>

definition validCard :: "card \<Rightarrow> bool" where
  "validCard c = (1 \<le> number c \<and> number c \<le> 13)"

definition validHand :: "card list \<Rightarrow> bool" where
  "validHand cs = (length cs = 5 \<and> list_all validCard cs)"

text \<open>
  The value of a tie-breaker, read off the ranks: the decimal fraction whose digit pairs are
  the given ranks, most significant first. Used to state what \<open>parseFraction\<close> computes.
\<close>

fun rankFraction :: "int list \<Rightarrow> rat" where
  "rankFraction [] = 0"
| "rankFraction (r # rs) = (of_int r + rankFraction rs) / 100"

section \<open>Concrete data\<close>

text \<open>
  The constructor of the class, and the hand and the snapshot shape of the repository's test
  file (\<^verbatim>\<open>PlayerTestGameData\<close>), used to run the model on concrete inputs.
\<close>

definition newJsPlayer :: "string \<Rightarrow> string \<Rightarrow> jsPlayer" where
  "newJsPlayer i n = \<lparr>this_id = i, this_name = n, this_round = 0, this_win = 0\<rparr>"

definition testCards :: "card list" where
  "testCards =
     [\<lparr>suit = ''Clubs'', number = 1\<rparr>, \<lparr>suit = ''Diamonds'', number = 7\<rparr>,
      \<lparr>suit = ''Spades'', number = 6\<rparr>, \<lparr>suit = ''Spades'', number = 9\<rparr>,
      \<lparr>suit = ''Clubs'', number = 8\<rparr>]"

definition straightCards :: "card list" where
  "straightCards =
     [\<lparr>suit = ''Clubs'', number = 5\<rparr>, \<lparr>suit = ''Diamonds'', number = 7\<rparr>,
      \<lparr>suit = ''Spades'', number = 6\<rparr>, \<lparr>suit = ''Spades'', number = 9\<rparr>,
      \<lparr>suit = ''Clubs'', number = 8\<rparr>]"

definition testPlayer :: "string \<Rightarrow> int \<Rightarrow> card list \<Rightarrow> playerInfo" where
  "testPlayer n p cs =
     \<lparr>p_name = n, status = ''active'', point = p,
      p_round = \<lparr>betPoint = Some 0, cards = Some cs\<rparr>\<rparr>"

definition testGameData :: "(string \<times> playerInfo) list \<Rightarrow> string option \<Rightarrow> gameInfo" where
  "testGameData ps w =
     \<lparr>currentRound = 1, phase = ''start'', pot = 0, minBetPoint = 0,
      players = map_of ps, winner = w\<rparr>"

definition pairCards :: "card list" where
  "pairCards =
     [\<lparr>suit = ''Clubs'', number = 7\<rparr>, \<lparr>suit = ''Diamonds'', number = 7\<rparr>,
      \<lparr>suit = ''Spades'', number = 3\<rparr>, \<lparr>suit = ''Spades'', number = 9\<rparr>,
      \<lparr>suit = ''Hearts'', number = 12\<rparr>]"

definition suitedCards :: "card list" where
  "suitedCards =
     [\<lparr>suit = ''Hearts'', number = 1\<rparr>, \<lparr>suit = ''Hearts'', number = 7\<rparr>,
      \<lparr>suit = ''Hearts'', number = 6\<rparr>, \<lparr>suit = ''Clubs'', number = 9\<rparr>,
      \<lparr>suit = ''Diamonds'', number = 8\<rparr>]"

definition kingCards :: "card list" where
  "kingCards =
     [\<lparr>suit = ''Clubs'', number = 13\<rparr>, \<lparr>suit = ''Diamonds'', number = 7\<rparr>,
      \<lparr>suit = ''Spades'', number = 6\<rparr>, \<lparr>suit = ''Spades'', number = 9\<rparr>,
      \<lparr>suit = ''Clubs'', number = 8\<rparr>]"

section \<open>Draw selection: strong hands\<close>

text \<open>
  Claim C6. For every hand and every strength value of at least 400, \<open>decideDraw\<close> returns
  exactly five times \<open>False\<close>: all five cards are kept and none is discarded.
\<close>

theorem decideDraw_keeps_all:
  "400 \<le> handStrength \<Longrightarrow> decideDraw cs handStrength = [False, False, False, False, False]"
  by (simp add: decideDraw_def)

theorem decideDraw_keeps_all_witness:
  "400 \<le> evaluateHand (Some straightCards) \<and>
   decideDraw straightCards (evaluateHand (Some straightCards)) = [False, False, False, False, False]"
proof -
  have h: "400 \<le> evaluateHand (Some straightCards)" by code_simp
  show ?thesis using h decideDraw_keeps_all [OF h, of straightCards] by simp
qed

section \<open>The betting hook\<close>

lemma snd_decideBetPoint: "snd (decideBetPoint this data) = this"
  by (simp add: decideBetPoint_def Let_def split: lookup.split)

lemma lookupPlayer_Own: "lookupPlayer obj key = Own p \<longleftrightarrow> obj key = Some p"
  by (simp add: lookupPlayer_def split: option.split)

lemma lookupPlayer_Undefined: "lookupPlayer obj key = Undefined \<Longrightarrow> obj key = None"
  by (simp add: lookupPlayer_def split: option.splits if_splits)

text \<open>
  Whenever the lookup of the player's name does not end at a member inherited from
  \<^verbatim>\<open>Object.prototype\<close>, the bet hook returns what the reference policy returns on the
  player's own entry of the player map (absent: fold) and the strength of the player's own
  cards.
\<close>

lemma bet_is_referencePolicy:
  assumes "lookupPlayer (players data) (this_name this) \<noteq> Inherited"
  shows "fst (bet this data) =
     Inr (referencePolicy data (players data (this_name this))
            (evaluateHand (Option.bind (players data (this_name this)) (\<lambda>self. cards (p_round self)))))"
proof (cases "lookupPlayer (players data) (this_name this)")
  case Undefined
  then have "players data (this_name this) = None" by (rule lookupPlayer_Undefined)
  with Undefined show ?thesis
    by (simp add: bet_def decideBetPoint_def referencePolicy_def)
next
  case Inherited
  with assms show ?thesis by simp
next
  case (Own p)
  then have "players data (this_name this) = Some p" by (simp only: lookupPlayer_Own)
  with Own show ?thesis
    by (simp add: bet_def decideBetPoint_def referencePolicy_def Let_def)
qed

lemma bet_examples:
  "fst (bet (newJsPlayer ''1'' ''team2'')
         (testGameData [(''team2'', testPlayer ''team2'' 20000 testCards)] None)) = Inr 0 \<and>
   fst (bet (newJsPlayer ''1'' ''team2'')
         ((testGameData [(''team2'', testPlayer ''team2'' 20000 pairCards)] None)
            \<lparr>pot := 1000, minBetPoint := 600\<rparr>)) = Inr (- 1) \<and>
   fst (bet (newJsPlayer ''1'' ''team2'')
         (testGameData [(''Player1'', testPlayer ''Player1'' 37600 [])] None)) = Inr (- 1)"
proof -
  let ?p = "newJsPlayer ''1'' ''team2''"
  have a: "fst (bet ?p (testGameData [(''team2'', testPlayer ''team2'' 20000 testCards)] None)) = Inr 0"
    by code_simp
  have b: "fst (bet ?p ((testGameData [(''team2'', testPlayer ''team2'' 20000 pairCards)] None)
            \<lparr>pot := 1000, minBetPoint := 600\<rparr>)) = Inr (- 1)"
    by code_simp
  have c: "fst (bet ?p (testGameData [(''Player1'', testPlayer ''Player1'' 37600 [])] None)) = Inr (- 1)"
    by code_simp
  show ?thesis by (intro conjI a b c)
qed

text \<open>
  Claim C2: the bet hook equals the reference policy for every snapshot, and returns -1 when
  the acting player's name is not in the player map. For a player named \<^verbatim>\<open>toString\<close> and
  a player map without that name the reference policy says -1 (fold), and the hook throws a
  TypeError instead of returning.
\<close>

theorem bet_inherited_name_throws:
  "players (testGameData [(''team2'', testPlayer ''team2'' 20000 testCards)] None) ''toString'' = None \<and>
   referencePolicy (testGameData [(''team2'', testPlayer ''team2'' 20000 testCards)] None)
     None (evaluateHand None) = - 1 \<and>
   fst (bet (newJsPlayer ''1'' ''toString'')
          (testGameData [(''team2'', testPlayer ''team2'' 20000 testCards)] None)) = Inl TypeError"
proof -
  let ?d = "testGameData [(''team2'', testPlayer ''team2'' 20000 testCards)] None"
  have a: "players ?d ''toString'' = None"
    by (simp add: testGameData_def)
  have b: "referencePolicy ?d None (evaluateHand None) = - 1"
    by (simp add: referencePolicy_def)
  have c: "fst (bet (newJsPlayer ''1'' ''toString'') ?d) = Inl TypeError"
    by code_simp
  show ?thesis by (intro conjI a b c)
qed

section \<open>The draw hook\<close>

lemma length_keepFirst: "length (keepFirst m k cs) = length cs"
  by (induction cs arbitrary: k) auto


lemma snd_drawCard: "snd (drawCard this data) = this"
  by (simp add: drawCard_def Let_def split: lookup.split)




text \<open>
  The case the amended claim leaves out: for a player named \<^verbatim>\<open>toString\<close> without an own
  entry the draw hook throws.
\<close>

lemma draw_inherited_name_throws:
  "fst (draw (newJsPlayer ''1'' ''toString'')
         (testGameData [(''team2'', testPlayer ''team2'' 20000 testCards)] None)) = Inl TypeError"
  by code_simp

section \<open>Session state\<close>

text \<open>
  Claim C4, as stated: each of the four hooks, invoked twice with the same snapshot, leaves
  the state as one invocation does. It fails for the end hook when the snapshot's winner is
  the player: the second invocation counts a second win.
\<close>

theorem end_twice_counterexample:
  "snd (end_hook (snd (end_hook (newJsPlayer ''1'' ''team2'') (testGameData [] (Some ''team2''))))
         (testGameData [] (Some ''team2'')))
     \<noteq> snd (end_hook (newJsPlayer ''1'' ''team2'') (testGameData [] (Some ''team2'')))"
  by (simp add: end_hook_def endRound_def newJsPlayer_def testGameData_def)

text \<open>
  Claim C4, amended. The start, bet and draw hooks are idempotent: invoked twice in
  succession with the same snapshot they return the same value and leave the same state as
  one invocation. The end hook returns the same (empty) value both times, and leaves the
  same state as one invocation exactly when the snapshot's winner is not the player's own
  name.
\<close>

theorem hooks_idempotent:
  "start (snd (start this data)) data = start this data \<and>
   bet (snd (bet this data)) data = bet this data \<and>
   draw (snd (draw this data)) data = draw this data \<and>
   fst (end_hook (snd (end_hook this data)) data) = fst (end_hook this data) \<and>
   (snd (end_hook (snd (end_hook this data)) data) = snd (end_hook this data)
      \<longleftrightarrow> winner data \<noteq> Some (this_name this))"
proof -
  have s: "start (snd (start this data)) data = start this data"
    by (simp add: start_def startRound_def)
  have b: "bet (snd (bet this data)) data = bet this data"
    by (simp add: bet_def snd_decideBetPoint)
  have d: "draw (snd (draw this data)) data = draw this data"
    by (simp add: draw_def snd_drawCard)
  have e: "snd (end_hook (snd (end_hook this data)) data) = snd (end_hook this data)
      \<longleftrightarrow> winner data \<noteq> Some (this_name this)"
  proof (cases "winner data = Some (this_name this)")
    case True
    have "this_win (snd (end_hook (snd (end_hook this data)) data)) = this_win this + 2"
      using True by (simp add: end_hook_def endRound_def)
    moreover have "this_win (snd (end_hook this data)) = this_win this + 1"
      using True by (simp add: end_hook_def endRound_def)
    ultimately have "snd (end_hook (snd (end_hook this data)) data) \<noteq> snd (end_hook this data)"
      by (metis add_left_cancel numeral_eq_one_iff semiring_norm(85))
    with True show ?thesis by simp
  next
    case False
    then show ?thesis by (simp add: end_hook_def endRound_def)
  qed
  from s b d e show ?thesis by simp
qed

theorem hooks_idempotent_witness:
  "winner (testGameData [] (Some ''Player1'')) \<noteq> Some (this_name (newJsPlayer ''1'' ''team2'')) \<and>
   snd (end_hook (snd (end_hook (newJsPlayer ''1'' ''team2'') (testGameData [] (Some ''Player1''))))
          (testGameData [] (Some ''Player1'')))
     = snd (end_hook (newJsPlayer ''1'' ''team2'') (testGameData [] (Some ''Player1''))) \<and>
   start (snd (start (newJsPlayer ''1'' ''team2'') (testGameData [] (Some ''Player1''))))
       (testGameData [] (Some ''Player1''))
     = start (newJsPlayer ''1'' ''team2'') (testGameData [] (Some ''Player1''))"
  using hooks_idempotent [of "newJsPlayer ''1'' ''team2''" "testGameData [] (Some ''Player1'')"]
  by (simp add: testGameData_def newJsPlayer_def)

text \<open>
  Claim C9. After the end hook, the win counter is its previous value plus 1 when the
  snapshot's winner equals the player's own name and is unchanged otherwise; the id, the
  name and the round counter are unchanged in both cases.
\<close>

theorem end_win_counter:
  "this_win (snd (end_hook this data)) =
     (if winner data = Some (this_name this) then this_win this + 1 else this_win this) \<and>
   this_id (snd (end_hook this data)) = this_id this \<and>
   this_name (snd (end_hook this data)) = this_name this \<and>
   this_round (snd (end_hook this data)) = this_round this"
  by (simp add: end_hook_def endRound_def)

theorem end_win_counter_witness:
  "winner (testGameData [] (Some ''team2'')) = Some (this_name (newJsPlayer ''1'' ''team2'')) \<and>
   this_win (snd (end_hook (newJsPlayer ''1'' ''team2'') (testGameData [] (Some ''team2'')))) = 1 \<and>
   this_win (snd (end_hook (newJsPlayer ''1'' ''team2'') (testGameData [] (Some ''Player1'')))) = 0"
  using end_win_counter [of "newJsPlayer ''1'' ''team2''" "testGameData [] (Some ''team2'')"]
    end_win_counter [of "newJsPlayer ''1'' ''team2''" "testGameData [] (Some ''Player1'')"]
  by (simp add: testGameData_def newJsPlayer_def)

section \<open>Draw selection: suits and the high-card branch\<close>

lemma toRank_number: "number c = number d \<Longrightarrow> toRank c = toRank d"
  by (simp add: toRank_def)

lemma map_toRank_number: "map number cs = map number ds \<Longrightarrow> map toRank cs = map toRank ds"
proof (induction cs arbitrary: ds)
  case Nil
  then show ?case by simp
next
  case (Cons c cs)
  then obtain d ds' where "ds = d # ds'" by (cases ds) auto
  with Cons show ?case by (auto intro: toRank_number)
qed

lemma countCards_ranks: "countCards cs = countRanks (map toRank cs)"
  by (simp add: countCards_def countRanks_def fold_map comp_def)

lemma keepFirst_ranks:
  "map toRank cs = map toRank ds \<Longrightarrow> keepFirst m k cs = keepFirst m k ds"
proof (induction cs arbitrary: ds k)
  case Nil
  then show ?case by simp
next
  case (Cons c cs)
  then obtain d ds' where ds: "ds = d # ds'" by (cases ds) auto
  with Cons.prems have "toRank c = toRank d" "map toRank cs = map toRank ds'" by auto
  with Cons.IH ds show ?case by simp
qed

lemma map_test_ranks:
  "map toRank cs = map toRank ds \<Longrightarrow> map (\<lambda>c. P (toRank c)) cs = map (\<lambda>c. P (toRank c)) ds"
proof -
  assume "map toRank cs = map toRank ds"
  then have "map P (map toRank cs) = map P (map toRank ds)" by simp
  then show ?thesis by (simp add: comp_def)
qed

text \<open>
  Claim C10. The draw decision is blind to suits: for every strength value, two card lists
  whose cards agree position by position on their number receive the same decision
  sequence.
\<close>

theorem decideDraw_suit_blind:
  assumes "map number cs = map number ds"
  shows "decideDraw cs handStrength = decideDraw ds handStrength"
proof -
  have r: "map toRank cs = map toRank ds"
    using assms by (rule map_toRank_number)
  have c: "countCards cs = countCards ds"
    by (simp add: countCards_ranks r)
  have k: "keepFirst (mathMax (map toRank cs)) False cs = keepFirst (mathMax (map toRank ds)) False ds"
    using keepFirst_ranks [OF r] by (simp add: r)
  have m: "map (\<lambda>c. P (toRank c)) cs = map (\<lambda>c. P (toRank c)) ds" for P :: "int \<Rightarrow> bool"
    using r by (rule map_test_ranks)
  show ?thesis
    unfolding decideDraw_def Let_def c k
    using m [of "\<lambda>r. Some r \<noteq> findRank (countCards ds) 3"]
      m [of "\<lambda>r. Some r = findRank (countCards ds) 1"]
      m [of "\<lambda>r. Some r \<noteq> findRank (countCards ds) 2"]
    by simp
qed

theorem decideDraw_suit_blind_witness:
  "map number testCards = map number suitedCards \<and> map suit testCards \<noteq> map suit suitedCards \<and>
   decideDraw testCards (evaluateHand (Some testCards)) =
     decideDraw suitedCards (evaluateHand (Some testCards))"
proof -
  have n: "map number testCards = map number suitedCards"
    by (simp add: testCards_def suitedCards_def)
  have s: "map suit testCards \<noteq> map suit suitedCards"
    by (simp add: testCards_def suitedCards_def)
  from n s decideDraw_suit_blind [OF n] show ?thesis by simp
qed

lemma mathMax_Max: "xs \<noteq> [] \<Longrightarrow> mathMax xs = Some (Max (set xs))"
proof (induction xs)
  case Nil
  then show ?case by simp
next
  case (Cons x xs)
  show ?case
  proof (cases "xs = []")
    case True
    then show ?thesis by simp
  next
    case False
    with Cons.IH have "mathMax xs = Some (Max (set xs))" by simp
    with False show ?thesis by (simp add: max.commute)
  qed
qed

lemma keepFirst_nth:
  "i < length cs \<Longrightarrow>
   keepFirst (Some m) k cs ! i = (\<not> (\<not> k \<and> toRank (cs ! i) = m \<and> (\<forall>j<i. toRank (cs ! j) \<noteq> m)))"
proof (induction cs arbitrary: i k)
  case Nil
  then show ?case by simp
next
  case (Cons c cs)
  show ?case
  proof (cases i)
    case 0
    then show ?thesis by auto
  next
    case (Suc n)
    with Cons.prems have n: "n < length cs" by simp
    show ?thesis
      using Cons.IH [OF n] Suc by (auto simp: less_Suc_eq_0_disj)
  qed
qed

text \<open>
  Claim C7. For a hand of five cards and a strength below 100, the decision has five entries
  and is \<open>False\<close> (keep) exactly at the first position in hand order whose rank (number 1
  counting as 14) is the maximum rank of the hand, and \<open>True\<close> (discard) everywhere else.
  For the hand of the test file the category is 0, the strength lies in [0, 1), and only the
  Ace is kept.
\<close>

theorem decideDraw_high_card:
  assumes "length cs = 5" and "handStrength < 100"
  shows "length (decideDraw cs handStrength) = 5 \<and>
    (\<forall>i<5. decideDraw cs handStrength ! i =
       (\<not> (toRank (cs ! i) = Max (set (map toRank cs)) \<and>
           (\<forall>j<i. toRank (cs ! j) \<noteq> Max (set (map toRank cs)))))) \<and>
    handScore testCards = 0 \<and>
    0 \<le> evaluateHand (Some testCards) \<and> evaluateHand (Some testCards) < 1 \<and>
    decideDraw testCards (evaluateHand (Some testCards)) = [False, True, True, True, True]"
proof -
  have ne: "map toRank cs \<noteq> []" using assms(1) by auto
  have d: "decideDraw cs handStrength = keepFirst (Some (Max (set (map toRank cs)))) False cs"
    using assms(2) by (simp add: decideDraw_def mathMax_Max [OF ne])
  have l: "length (decideDraw cs handStrength) = 5"
    by (simp add: d length_keepFirst assms(1))
  have p: "\<forall>i<5. decideDraw cs handStrength ! i =
       (\<not> (toRank (cs ! i) = Max (set (map toRank cs)) \<and>
           (\<forall>j<i. toRank (cs ! j) \<noteq> Max (set (map toRank cs)))))"
    unfolding d using assms(1) by (simp add: keepFirst_nth)
  have c1: "handScore testCards = 0" by code_simp
  have c2: "0 \<le> evaluateHand (Some testCards)" by code_simp
  have c3: "evaluateHand (Some testCards) < 1" by code_simp
  have c4: "decideDraw testCards (evaluateHand (Some testCards)) = [False, True, True, True, True]"
    by code_simp
  from l p c1 c2 c3 c4 show ?thesis by blast
qed

theorem decideDraw_high_card_witness:
  "length testCards = 5 \<and> evaluateHand (Some testCards) < 100 \<and>
   length (decideDraw testCards (evaluateHand (Some testCards))) = 5 \<and>
   decideDraw testCards (evaluateHand (Some testCards)) ! 0 = False \<and>
   decideDraw testCards (evaluateHand (Some testCards)) ! 1 = True"
proof -
  have l: "length testCards = 5" by (simp add: testCards_def)
  have h: "evaluateHand (Some testCards) < 100" by code_simp
  from decideDraw_high_card [OF l h] l h show ?thesis by simp
qed

section \<open>The value of the tie-breaker\<close>

lemma digitChar_digit: "d < 10 \<Longrightarrow> isDigit (digitChar d) \<and> digitVal (digitChar d) = d"
  by (simp add: isDigit_def digitVal_def digitChar_def)

lemma digitsOf_small: "n < 10 \<Longrightarrow> digitsOf n = [digitChar n]"
  by simp

lemma digitsOf_two: "10 \<le> n \<Longrightarrow> n < 100 \<Longrightarrow> digitsOf n = [digitChar (n div 10), digitChar (n mod 10)]"
proof -
  assume a: "10 \<le> n" "n < 100"
  then have "n div 10 < 10" by simp
  then have "digitsOf (n div 10) = [digitChar (n div 10)]" by (rule digitsOf_small)
  moreover have "digitsOf n = digitsOf (n div 10) @ [digitChar (n mod 10)]"
    using a(1) by (subst digitsOf.simps) simp
  ultimately show ?thesis by simp
qed

lemma padStart2_toString:
  assumes "0 \<le> r" and "r < 100"
  shows "padStart2 (toString r) = [digitChar (nat r div 10), digitChar (nat r mod 10)]"
proof (cases "nat r < 10")
  case True
  then have "digitsOf (nat r) = [digitChar (nat r)]" by (rule digitsOf_small)
  moreover have "digitChar 0 = CHR ''0''" by code_simp
  ultimately show ?thesis using True assms
    by (simp add: padStart2_def toString_def del: digitsOf.simps)
next
  case False
  then have "10 \<le> nat r" "nat r < 100" using assms by auto
  then have "digitsOf (nat r) = [digitChar (nat r div 10), digitChar (nat r mod 10)]"
    by (rule digitsOf_two)
  then show ?thesis using assms
    by (simp add: padStart2_def toString_def del: digitsOf.simps)
qed

lemma two_digit_fraction: "(x + (y + p) / 10) / 10 = (10 * x + y + p) / (100 :: rat)"
  by (simp add: field_simps)

lemma parseFraction_rank:
  assumes "0 \<le> r" and "r < 100"
  shows "parseFraction (padStart2 (toString r) @ rest) = (of_int r + parseFraction rest) / 100"
proof -
  let ?a = "nat r div 10" and ?b = "nat r mod 10"
  have a: "?a < 10" using assms by auto
  have b: "?b < 10" by simp
  have "(of_int r :: rat) = of_nat (nat r)" using assms(1) by simp
  also have "nat r = 10 * ?a + ?b" by simp
  finally have r: "(of_int r :: rat) = 10 * of_nat ?a + of_nat ?b"
    by (simp only: of_nat_add of_nat_mult of_nat_numeral)
  have "parseFraction (padStart2 (toString r) @ rest)
      = (of_nat ?a + (of_nat ?b + parseFraction rest) / 10) / 10"
    using digitChar_digit [OF a] digitChar_digit [OF b]
    by (simp add: padStart2_toString [OF assms])
  also have "\<dots> = (10 * of_nat ?a + of_nat ?b + parseFraction rest) / 100"
    by (rule two_digit_fraction)
  finally show ?thesis by (simp only: r)
qed

lemma parseFraction_ranks:
  "\<forall>r\<in>set rs. 0 \<le> r \<and> r < 100 \<Longrightarrow>
   parseFraction (concat (map (\<lambda>r. padStart2 (toString r)) rs)) = rankFraction rs"
  by (induction rs) (simp_all add: parseFraction_rank)

lemma rankFraction_nonneg: "\<forall>r\<in>set rs. 0 \<le> r \<Longrightarrow> 0 \<le> rankFraction rs"
  by (induction rs) simp_all

lemma parseFraction_bounds: "0 \<le> parseFraction s \<and> parseFraction s < 1"
proof (induction s)
  case Nil
  then show ?case by simp
next
  case (Cons c s)
  show ?case
  proof (cases "isDigit c")
    case True
    then have "digitVal c \<le> 9" unfolding isDigit_def digitVal_def by arith
    then have "(of_nat (digitVal c) :: rat) \<le> 9"
      by (metis of_nat_le_iff of_nat_numeral)
    with Cons.IH True show ?thesis by simp
  next
    case False
    then show ?thesis by simp
  qed
qed

lemma validHand_ranks:
  "validHand cs \<Longrightarrow> \<forall>r\<in>set (map toRank cs). 2 \<le> r \<and> r \<le> 14"
  by (auto simp: validHand_def list_all_iff validCard_def toRank_def)

lemma tieBreaker_value:
  assumes "validHand cs"
  shows "parseFraction (tieBreaker cs) = rankFraction (rev (sort (map toRank cs)))"
proof -
  have "\<forall>r\<in>set (rev (sort (map toRank cs))). 0 \<le> r \<and> r < 100"
    using validHand_ranks [OF assms] by fastforce
  then show ?thesis
    by (simp add: tieBreaker_def rev_map parseFraction_ranks)
qed

lemma tieBreaker_pos:
  assumes "validHand cs"
  shows "0 < parseFraction (tieBreaker cs)"
proof -
  let ?rs = "rev (sort (map toRank cs))"
  have len: "length ?rs = 5" using assms by (simp add: validHand_def)
  then obtain r rs where rs: "?rs = r # rs" by (cases ?rs) auto
  have bnd: "\<forall>x\<in>set ?rs. 2 \<le> x \<and> x \<le> 14"
    using validHand_ranks [OF assms] by simp
  have r: "2 \<le> r" using bnd rs by simp
  have "\<forall>x\<in>set rs. 0 \<le> x" using bnd rs by fastforce
  then have "0 \<le> rankFraction rs" by (rule rankFraction_nonneg)
  moreover have "(2::rat) \<le> of_int r" using r by linarith
  ultimately have "0 < rankFraction (r # rs)" by simp
  then show ?thesis by (simp add: tieBreaker_value [OF assms] rs)
qed

lemma handScore_cases:
  "handScore cs \<in> {0, 100, 200, 300, 400, 500, 600, 700, 800, 900}"
  by (simp add: handScore_def Let_def)

lemma handScore_nonneg: "0 \<le> handScore cs"
  using handScore_cases [of cs] by auto

text \<open>
  Claim C8. \<open>evaluateHand\<close> returns exactly 0 for an absent hand and for a hand whose
  length is not 5, in particular for the empty hand; for five cards of the data model it
  returns a strictly positive value. So for a list of cards of the data model the result is 0
  exactly when the list does not have five cards.
\<close>

theorem evaluateHand_zero:
  "evaluateHand None = 0 \<and> evaluateHand (Some []) = 0 \<and>
   (length cs \<noteq> 5 \<longrightarrow> evaluateHand (Some cs) = 0) \<and>
   (length cs = 5 \<and> list_all validCard cs \<longrightarrow> 0 < evaluateHand (Some cs)) \<and>
   (list_all validCard cs \<longrightarrow> (evaluateHand (Some cs) = 0 \<longleftrightarrow> length cs \<noteq> 5))"
proof -
  have a: "evaluateHand None = 0" "evaluateHand (Some []) = 0"
    by (simp_all add: evaluateHand_def)
  have b: "evaluateHand (Some cs) = 0" if "length cs \<noteq> 5"
    using that by (simp add: evaluateHand_def)
  have c: "0 < evaluateHand (Some cs)" if "length cs = 5" "list_all validCard cs"
  proof -
    have v: "validHand cs" using that by (simp add: validHand_def)
    have "(0::rat) \<le> of_int (handScore cs)" using handScore_nonneg [of cs] by simp
    with tieBreaker_pos [OF v] that show ?thesis by (simp add: evaluateHand_def)
  qed
  have d: "evaluateHand (Some cs) = 0 \<longleftrightarrow> length cs \<noteq> 5" if "list_all validCard cs"
    using b c [OF _ that] by force
  from a b c d show ?thesis by blast
qed

theorem evaluateHand_zero_witness:
  "length testCards = 5 \<and> list_all validCard testCards \<and> 0 < evaluateHand (Some testCards) \<and>
   length (tl testCards) \<noteq> 5 \<and> evaluateHand (Some (tl testCards)) = 0"
proof -
  have l: "length testCards = 5" by (simp add: testCards_def)
  have v: "list_all validCard testCards" by (simp add: testCards_def validCard_def)
  have t: "length (tl testCards) \<noteq> 5" by (simp add: testCards_def)
  from evaluateHand_zero [of testCards] evaluateHand_zero [of "tl testCards"] l v t
  show ?thesis by blast
qed

section \<open>Order independence and the high card\<close>

lemma sort_mset_cong: "mset xs = mset ys \<Longrightarrow> sort xs = sort (ys :: int list)"
  by (rule properties_for_sort) simp_all

lemma sort_ranks_perm: "mset cs = mset ds \<Longrightarrow> sort (map toRank cs) = sort (map toRank ds)"
  by (rule sort_mset_cong) simp

lemma all_equal_first:
  "xs \<noteq> [] \<Longrightarrow> list_all (\<lambda>s. s = xs ! 0) xs \<longleftrightarrow> (\<forall>x\<in>set xs. \<forall>y\<in>set xs. x = y)"
proof (cases xs)
  case Nil
  then show ?thesis by simp
next
  case (Cons a list)
  assume "xs \<noteq> []"
  have "list_all (\<lambda>s. s = a) (a # list) \<longleftrightarrow> (\<forall>x\<in>set (a # list). \<forall>y\<in>set (a # list). x = y)"
    unfolding list_all_iff by (metis list.set_intros(1))
  with Cons show ?thesis by simp
qed

lemma isFlush_perm:
  assumes "mset cs = mset ds"
  shows "isFlush (map suit cs) = isFlush (map suit ds)"
proof (cases "cs = []")
  case True
  with assms show ?thesis by simp
next
  case False
  with assms have d: "ds \<noteq> []" by auto
  have "set (map suit cs) = set (map suit ds)"
    using mset_eq_setD [OF assms] by simp
  then show ?thesis
    unfolding isFlush_def using False d
    by (simp only: all_equal_first [of "map suit cs"] all_equal_first [of "map suit ds"]
        map_is_Nil_conv not_False_eq_True)
qed

lemma handScore_perm:
  assumes "mset cs = mset ds"
  shows "handScore cs = handScore ds"
  unfolding handScore_def Let_def
  by (simp only: sort_ranks_perm [OF assms] isFlush_perm [OF assms])

lemma tieBreaker_perm:
  assumes "mset cs = mset ds"
  shows "tieBreaker cs = tieBreaker ds"
  unfolding tieBreaker_def by (simp only: sort_ranks_perm [OF assms])

lemma evaluateHand_perm:
  assumes "mset cs = mset ds"
  shows "evaluateHand (Some cs) = evaluateHand (Some ds)"
  by (simp add: evaluateHand_def handScore_perm [OF assms] tieBreaker_perm [OF assms]
      mset_eq_length [OF assms])

lemma evaluateHand_valid:
  "validHand cs \<Longrightarrow>
   evaluateHand (Some cs) = of_int (handScore cs) + rankFraction (rev (sort (map toRank cs)))"
  by (simp add: evaluateHand_def tieBreaker_value) (simp add: validHand_def)

text \<open>
  Claim C5. A permutation of a hand has the same strength. For two hands of the data model
  in the same category whose ranks in descending order agree everywhere except that the
  first (highest) rank of the second hand is strictly greater, the second hand has the
  strictly greater strength.
\<close>

theorem evaluateHand_order:
  "(mset cs = mset ds \<longrightarrow> evaluateHand (Some cs) = evaluateHand (Some ds)) \<and>
   (validHand cs \<and> validHand ds \<and> handScore cs = handScore ds \<and>
    (\<exists>a b rest. rev (sort (map toRank cs)) = a # rest \<and>
                rev (sort (map toRank ds)) = b # rest \<and> a < b)
      \<longrightarrow> evaluateHand (Some cs) < evaluateHand (Some ds))"
proof -
  have p: "evaluateHand (Some cs) = evaluateHand (Some ds)" if "mset cs = mset ds"
    using that by (rule evaluateHand_perm)
  have q: "evaluateHand (Some cs) < evaluateHand (Some ds)"
    if v: "validHand cs" "validHand ds" and s: "handScore cs = handScore ds"
      and r: "rev (sort (map toRank cs)) = a # rest" "rev (sort (map toRank ds)) = b # rest"
      and l: "a < b" for a b rest
  proof -
    have "rankFraction (a # rest) < rankFraction (b # rest)" using l by simp
    then show ?thesis
      by (simp only: evaluateHand_valid [OF v(1)] evaluateHand_valid [OF v(2)] s r)
  qed
  from p q show ?thesis by blast
qed

theorem evaluateHand_order_witness:
  "mset testCards = mset (rev testCards) \<and>
   evaluateHand (Some testCards) = evaluateHand (Some (rev testCards)) \<and>
   validHand kingCards \<and> validHand testCards \<and> handScore kingCards = handScore testCards \<and>
   rev (sort (map toRank kingCards)) = 13 # [9, 8, 7, 6] \<and>
   rev (sort (map toRank testCards)) = 14 # [9, 8, 7, 6] \<and>
   evaluateHand (Some kingCards) < evaluateHand (Some testCards)"
proof -
  have m: "mset testCards = mset (rev testCards)" by simp
  have v: "validHand kingCards" "validHand testCards" by code_simp+
  have s: "handScore kingCards = handScore testCards" by code_simp
  have r: "rev (sort (map toRank kingCards)) = 13 # [9, 8, 7, 6]"
    "rev (sort (map toRank testCards)) = 14 # [9, 8, 7, 6]" by code_simp+
  have l: "(13::int) < 14" by simp
  from evaluateHand_order [of testCards "rev testCards"] m
  have e: "evaluateHand (Some testCards) = evaluateHand (Some (rev testCards))" by blast
  from evaluateHand_order [of kingCards testCards] v s r l
  have k: "evaluateHand (Some kingCards) < evaluateHand (Some testCards)" by blast
  show ?thesis by (intro conjI m e v s r k)
qed

section \<open>The category score\<close>

lemma incr_keys: "fst ` set (incr r kvs) = insert r (fst ` set kvs)"
  by (induction r kvs rule: incr.induct) auto

lemma incr_distinct: "distinct (map fst kvs) \<Longrightarrow> distinct (map fst (incr r kvs))"
proof (induction r kvs rule: incr.induct)
  case (1 r)
  then show ?case by simp
next
  case (2 r k n kvs)
  show ?case
  proof (cases "k = r")
    case True
    with "2.prems" show ?thesis by simp
  next
    case False
    have "k \<notin> fst ` set (incr r kvs)"
      using False "2.prems" by (simp add: incr_keys)
    with False "2.IH" "2.prems" show ?thesis by simp
  qed
qed

lemma incr_map_of:
  "map_of (incr r kvs) k =
     (if k = r then Some (case map_of kvs r of None \<Rightarrow> 1 | Some n \<Rightarrow> n + 1) else map_of kvs k)"
  by (induction r kvs rule: incr.induct) auto

lemma countRanks_snoc: "countRanks (xs @ [x]) = incr x (countRanks xs)"
  by (simp add: countRanks_def)

lemma countRanks_inv:
  "distinct (map fst (countRanks xs)) \<and> fst ` set (countRanks xs) = set xs \<and>
   (\<forall>k\<in>set xs. map_of (countRanks xs) k = Some (count_list xs k))"
proof (induction xs rule: rev_induct)
  case Nil
  then show ?case by (simp add: countRanks_def)
next
  case (snoc x xs)
  let ?acc = "countRanks xs"
  have d: "distinct (map fst (incr x ?acc))"
    using snoc.IH by (simp add: incr_distinct)
  have k: "fst ` set (incr x ?acc) = set (xs @ [x])"
    using snoc.IH by (simp add: incr_keys)
  have m: "map_of (incr x ?acc) k = Some (count_list (xs @ [x]) k)" if "k \<in> set (xs @ [x])" for k
  proof (cases "k = x")
    case True
    show ?thesis
    proof (cases "x \<in> set xs")
      case True
      with snoc.IH have "map_of ?acc x = Some (count_list xs x)" by simp
      with \<open>k = x\<close> show ?thesis by (simp add: incr_map_of)
    next
      case False
      with snoc.IH have "x \<notin> fst ` set ?acc" by simp
      then have "map_of ?acc x = None" by (simp add: map_of_eq_None_iff)
      moreover have "count_list xs x = 0" using False by (simp add: count_list_0_iff)
      ultimately show ?thesis using \<open>k = x\<close> by (simp add: incr_map_of)
    qed
  next
    case False
    with that have "k \<in> set xs" by simp
    with snoc.IH have "map_of ?acc k = Some (count_list xs k)" by simp
    with False show ?thesis by (simp add: incr_map_of)
  qed
  from d k m show ?case by (simp only: countRanks_snoc) blast
qed

lemma map_snd_map_of:
  "distinct (map fst kvs) \<Longrightarrow> map snd kvs = map (\<lambda>k. the (map_of kvs k)) (map fst kvs)"
proof (induction kvs)
  case Nil
  then show ?case by simp
next
  case (Cons kv kvs)
  obtain k v where kv: "kv = (k, v)" by (cases kv)
  from Cons.prems kv have nk: "k \<notin> fst ` set kvs" and dk: "distinct (map fst kvs)" by auto
  have "map (\<lambda>x. the (map_of (kv # kvs) x)) (map fst kvs) = map (\<lambda>x. the (map_of kvs x)) (map fst kvs)"
    using nk kv by (intro map_cong) auto
  with Cons.IH [OF dk] kv show ?case by simp
qed

lemma mset_ownEntries: "mset (ownEntries kvs) = mset kvs"
  by (simp add: ownEntries_def multiset_partition [symmetric])

lemma mset_countsValues:
  "mset (objectValues (countRanks xs)) = mset (map (count_list xs) (remdups xs))"
proof -
  let ?acc = "countRanks xs"
  from countRanks_inv [of xs]
  have d: "distinct (map fst ?acc)" and k: "fst ` set ?acc = set xs"
    and m: "\<forall>k\<in>set xs. map_of ?acc k = Some (count_list xs k)" by blast+
  have "mset (objectValues ?acc) = mset (map snd ?acc)"
    by (simp add: objectValues_def mset_ownEntries)
  also have "map snd ?acc = map (\<lambda>k. the (map_of ?acc k)) (map fst ?acc)"
    using d by (rule map_snd_map_of)
  also have "\<dots> = map (count_list xs) (map fst ?acc)"
    using k m by (intro map_cong) auto
  also have "mset \<dots> = image_mset (count_list xs) (mset (map fst ?acc))"
    by (simp only: mset_map)
  also have "mset (map fst ?acc) = mset (remdups xs)"
    using d k by (intro iffD1 [OF set_eq_iff_mset_eq_distinct]) auto
  finally show ?thesis by (simp only: mset_map)
qed

lemma sort_nat_mset_cong: "mset xs = mset ys \<Longrightarrow> sort xs = sort (ys :: nat list)"
  by (rule properties_for_sort) simp_all

lemma countsValues_spec: "countsValues (sort xs) = specCounts xs"
proof -
  have c: "count_list (sort xs) = count_list xs"
  proof
    fix x
    have "count (mset (sort xs)) x = count (mset xs) x" by simp
    then show "count_list (sort xs) x = count_list xs x" by (simp only: count_mset)
  qed
  have "mset (remdups (sort xs)) = mset (remdups xs)"
    by (intro iffD1 [OF set_eq_iff_mset_eq_distinct]) auto
  then have "mset (map (count_list xs) (remdups (sort xs))) = mset (map (count_list xs) (remdups xs))"
    by simp
  with mset_countsValues [of "sort xs"] c
  have "mset (objectValues (countRanks (sort xs))) = mset (map (count_list xs) (remdups xs))"
    by simp
  then have "sort (objectValues (countRanks (sort xs))) = sort (map (count_list xs) (remdups xs))"
    by (rule sort_nat_mset_cong)
  then show ?thesis
    unfolding countsValues_def specCounts_def by (rule arg_cong)
qed


lemma isFlush_spec:
  assumes "cs \<noteq> []"
  shows "isFlush (map suit cs) = specFlush cs"
proof -
  have "map suit cs \<noteq> []" using assms by simp
  then have "isFlush (map suit cs) \<longleftrightarrow> (\<forall>x\<in>set (map suit cs). \<forall>y\<in>set (map suit cs). x = y)"
    unfolding isFlush_def by (rule all_equal_first)
  then show ?thesis by (simp add: specFlush_def)
qed

lemma interval5: "{a..a + 4} = {a, a + 1, a + 2, a + 3, a + (4::int)}"
proof (rule set_eqI)
  fix x :: int
  show "x \<in> {a..a + 4} \<longleftrightarrow> x \<in> {a, a + 1, a + 2, a + 3, a + 4}"
    by (simp only: atLeastAtMost_iff insert_iff empty_iff) arith
qed

lemma five_elems: "length xs = 5 \<Longrightarrow> \<exists>a b c d e. xs = [a, b, c, d, e]"
  by (auto simp: length_Suc_conv numeral_eq_Suc)

lemma sort_eq_of_set:
  assumes "length xs = length t" and "sorted t" and "distinct t" and "set xs = set t"
  shows "sort xs = (t :: int list)"
proof -
  have "card (set (sort xs)) = length (sort xs)"
    using assms(1,3,4) by (simp add: distinct_card)
  then have "distinct (sort xs)" by (rule card_distinct)
  then show ?thesis
    using assms(2,3,4) by (intro sorted_distinct_set_unique) simp_all
qed

lemma isNormalStraight_five:
  "isNormalStraight [a, b, c, d, e] \<longleftrightarrow> b = a + 1 \<and> c = b + 1 \<and> d = c + 1 \<and> e = d + 1"
  by (simp add: isNormalStraight_def)

lemma straight_list_props:
  "sorted [lo, lo + 1, lo + 2, lo + 3, lo + (4::int)] \<and> distinct [lo, lo + 1, lo + 2, lo + 3, lo + 4] \<and>
   set [lo, lo + 1, lo + 2, lo + 3, lo + 4] = {lo..lo + 4}"
  by (simp add: interval5)

lemma isStraight_of_spec:
  assumes "length xs = 5" and "specStraight xs"
  shows "isStraight (sort xs)"
proof -
  from assms(2) consider lo where "set xs = {lo..lo + 4}" | "set xs = {2, 3, 4, 5, 14}"
    unfolding specStraight_def by blast
  then show ?thesis
  proof cases
    case 1
    let ?t = "[lo, lo + 1, lo + 2, lo + 3, lo + 4]"
    have "sort xs = ?t"
    proof (rule sort_eq_of_set)
      show "length xs = length ?t" using assms(1) by simp
      show "sorted ?t" "distinct ?t" using straight_list_props [of lo] by blast+
      show "set xs = set ?t" using 1 straight_list_props [of lo] by simp
    qed
    then show ?thesis by (simp only: isStraight_def isNormalStraight_five) simp
  next
    case 2
    have "sort xs = [2, 3, 4, 5, 14]"
    proof (rule sort_eq_of_set)
      show "length xs = length [2, 3, 4, 5, 14 :: int]" using assms(1) by simp
      show "sorted [2, 3, 4, 5, 14 :: int]" "distinct [2, 3, 4, 5, 14 :: int]" by simp_all
      show "set xs = set [2, 3, 4, 5, 14]" using 2 by simp
    qed
    then show ?thesis by (simp only: isStraight_def isA5Straight_def) simp
  qed
qed

lemma spec_of_isStraight:
  assumes "length xs = 5" and "isStraight (sort xs)"
  shows "specStraight xs"
proof -
  from assms(2) consider "isNormalStraight (sort xs)" | "sort xs = [2, 3, 4, 5, 14]"
    unfolding isStraight_def isA5Straight_def by blast
  then show ?thesis
  proof cases
    case 1
    from assms(1) have "length (sort xs) = 5" by simp
    then obtain a b c d e where s: "sort xs = [a, b, c, d, e]"
      using five_elems by blast
    from 1 have "b = a + 1 \<and> c = b + 1 \<and> d = c + 1 \<and> e = d + 1"
      unfolding s by (simp only: isNormalStraight_five)
    with s have s': "sort xs = [a, a + 1, a + 2, a + 3, a + 4]" by simp
    have "set xs = set (sort xs)" by simp
    also have "\<dots> = {a..a + 4}"
      unfolding s' using straight_list_props [of a] by blast
    finally have i: "set xs = {a..a + 4}" .
    then have "a \<in> set xs" by simp
    with i show ?thesis unfolding specStraight_def by blast
  next
    case 2
    have "set xs = set (sort xs)" by simp
    also have "\<dots> = {2, 3, 4, 5, 14}" unfolding 2 by simp
    finally show ?thesis unfolding specStraight_def by blast
  qed
qed

lemma isStraight_spec: "length xs = 5 \<Longrightarrow> isStraight (sort xs) = specStraight xs"
  using isStraight_of_spec spec_of_isStraight by blast

lemma elemAt_take1: "elemAt xs 0 = Some v \<longleftrightarrow> take 1 xs = [v]"
  by (cases xs) (simp_all add: elemAt_def)

lemma elemAt_take2: "elemAt xs 0 = Some v \<and> elemAt xs 1 = Some w \<longleftrightarrow> take 2 xs = [v, w]"
proof (cases xs)
  case Nil
  then show ?thesis by (simp add: elemAt_def)
next
  case (Cons x ys)
  then show ?thesis by (cases ys) (auto simp: elemAt_def)
qed

lemma handScore_spec:
  assumes "length cs = 5"
  shows "handScore cs = specCategory cs"
proof -
  have ne: "cs \<noteq> []" using assms by auto
  have l: "length (map toRank cs) = 5" using assms by simp
  show ?thesis
    unfolding handScore_def specCategory_def Let_def
      isStraight_spec [OF l] isFlush_spec [OF ne] countsValues_spec set_sort elemAt_take2
    by (simp only: elemAt_take1)
qed

text \<open>
  Claim C1. For every hand of five cards of the data model, \<open>evaluateHand\<close> returns a
  category score plus a tie-breaker fraction, where the category is one of 0, 100, ..., 900
  and is the one the specification's first-match priority order selects, and the fraction is
  at least 0 and strictly less than 1. So the result lies in [0, 901), and a hand of a
  strictly higher category scores strictly higher than a hand of a lower category, whatever
  the two tie-breakers are.
\<close>

theorem evaluateHand_category:
  assumes "validHand cs" and "validHand ds"
  shows "evaluateHand (Some cs) = of_int (handScore cs) + parseFraction (tieBreaker cs) \<and>
         handScore cs \<in> {0, 100, 200, 300, 400, 500, 600, 700, 800, 900} \<and>
         handScore cs = specCategory cs \<and>
         0 \<le> parseFraction (tieBreaker cs) \<and> parseFraction (tieBreaker cs) < 1 \<and>
         0 \<le> evaluateHand (Some cs) \<and> evaluateHand (Some cs) < 901 \<and>
         (handScore cs < handScore ds \<longrightarrow> evaluateHand (Some cs) < evaluateHand (Some ds))"
proof -
  have lc: "length cs = 5" and ld: "length ds = 5"
    using assms by (simp_all add: validHand_def)
  have e: "evaluateHand (Some cs) = of_int (handScore cs) + parseFraction (tieBreaker cs)"
    using lc by (simp add: evaluateHand_def)
  have e': "evaluateHand (Some ds) = of_int (handScore ds) + parseFraction (tieBreaker ds)"
    using ld by (simp add: evaluateHand_def)
  have m: "handScore cs \<in> {0, 100, 200, 300, 400, 500, 600, 700, 800, 900}"
    by (rule handScore_cases)
  have s: "handScore cs = specCategory cs"
    using lc by (rule handScore_spec)
  have t: "0 \<le> parseFraction (tieBreaker cs)" "parseFraction (tieBreaker cs) < 1"
    using parseFraction_bounds [of "tieBreaker cs"] by simp_all
  have t': "0 \<le> parseFraction (tieBreaker ds)"
    using parseFraction_bounds [of "tieBreaker ds"] by simp
  have lo: "0 \<le> handScore cs" and hi: "handScore cs \<le> 900"
    using m by auto
  have r0: "0 \<le> evaluateHand (Some cs)"
    using lo t(1) by (simp add: e)
  have "(of_int (handScore cs) :: rat) \<le> 900" using hi by linarith
  then have r1: "evaluateHand (Some cs) < 901"
    using t(2) by (simp add: e)
  have o: "evaluateHand (Some cs) < evaluateHand (Some ds)" if "handScore cs < handScore ds"
  proof -
    have "handScore cs + 1 \<le> handScore ds" using that by simp
    then have "(of_int (handScore cs) :: rat) + 1 \<le> of_int (handScore ds)" by linarith
    with t(2) t' show ?thesis by (simp add: e e')
  qed
  from e m s t r0 r1 o show ?thesis by blast
qed

theorem evaluateHand_category_witness:
  "validHand testCards \<and> validHand straightCards \<and>
   handScore testCards = 0 \<and> specCategory testCards = 0 \<and> handScore straightCards = 400 \<and>
   evaluateHand (Some testCards) < 901 \<and>
   evaluateHand (Some testCards) < evaluateHand (Some straightCards)"
proof -
  have v: "validHand testCards" "validHand straightCards" by code_simp+
  have a: "handScore testCards = 0" by code_simp
  have b: "handScore straightCards = 400" by code_simp
  from evaluateHand_category [OF v] a b
  have c: "specCategory testCards = 0" and d: "evaluateHand (Some testCards) < 901"
    and e: "evaluateHand (Some testCards) < evaluateHand (Some straightCards)"
    by simp_all
  show ?thesis by (intro conjI v a b c d e)
qed

end
